theory Spec2Isabelle
  imports Main "HOL-Library.AList"
begin

section \<open>The browser storage the session manager coordinates through\<close>

text \<open>
  \<^verbatim>\<open>localStorage\<close> is a collection of key/value pairs with unique keys, and
  \<^verbatim>\<open>key(i)\<close> enumerates the keys by index. The order of that enumeration is left to
  the browser; the model keeps the pairs in a list, in insertion order:
  \<^verbatim>\<open>removeItem\<close> deletes the pair and keeps the order of the others, \<^verbatim>\<open>setItem\<close>
  overwrites in place or appends a new pair. Every operation may throw (storage
  disabled, quota exhausted, restricted context); which ones do is part of the
  storage state, so that a scenario can switch failures on and off.
\<close>

datatype storage_op = OpLength | OpKey | OpGetItem | OpSetItem | OpRemoveItem

datatype exn = StorageError storage_op | CallbackError

record storage =
  items :: "(string \<times> string) list"
  throwing :: "storage_op set"

definition ls_length :: "storage \<Rightarrow> exn + nat" where
  "ls_length ls =
     (if OpLength \<in> throwing ls then Inl (StorageError OpLength)
      else Inr (length (items ls)))"

definition ls_key :: "nat \<Rightarrow> storage \<Rightarrow> exn + string option" where
  "ls_key i ls =
     (if OpKey \<in> throwing ls then Inl (StorageError OpKey)
      else Inr (if i < length (items ls) then Some (fst (items ls ! i)) else None))"

definition ls_getItem :: "string \<Rightarrow> storage \<Rightarrow> exn + string option" where
  "ls_getItem k ls =
     (if OpGetItem \<in> throwing ls then Inl (StorageError OpGetItem)
      else Inr (map_of (items ls) k))"

definition ls_setItem :: "string \<Rightarrow> string \<Rightarrow> storage \<Rightarrow> exn + storage" where
  "ls_setItem k v ls =
     (if OpSetItem \<in> throwing ls then Inl (StorageError OpSetItem)
      else Inr (ls\<lparr>items := AList.update k v (items ls)\<rparr>))"

definition ls_removeItem :: "string \<Rightarrow> storage \<Rightarrow> exn + storage" where
  "ls_removeItem k ls =
     (if OpRemoveItem \<in> throwing ls then Inl (StorageError OpRemoveItem)
      else Inr (ls\<lparr>items := AList.delete k (items ls)\<rparr>))"

section \<open>ActiveSessionManager\<close>

definition ACTIVE_SESSION_KEY_PREFIX :: string where
  "ACTIVE_SESSION_KEY_PREFIX = ''semanticAppActiveSession_''"

definition startsWith :: "string \<Rightarrow> string \<Rightarrow> bool" where
  "startsWith s p = (take (length p) s = p)"

text \<open>The test of the sweep: \<^verbatim>\<open>key && key.startsWith(ACTIVE_SESSION_KEY_PREFIX)\<close>.\<close>

definition is_claim_key :: "string \<Rightarrow> bool" where
  "is_claim_key k = (k \<noteq> [] \<and> startsWith k ACTIVE_SESSION_KEY_PREFIX)"

text \<open>
  The fields of the class, followed by what the page observes of the instance: how often
  the conflict callback was invoked (and whether that callback itself throws), the
  warnings written to the console, and whether the interval timer is still scheduled.
\<close>

record arbiter =
  sessionId :: string
  storageKey :: string
  intervalId :: "nat option"
  isActiveSession :: bool
  onConflict_throws :: bool
  conflict_calls :: nat
  warnings :: "(string \<times> exn) list"
  interval_running :: bool

text \<open>
  A call either returns or throws; in both cases the effects made so far on the
  instance and on the storage stay.
\<close>

datatype 'a result = Returned 'a | Thrown exn 'a

definition console_warn :: "string \<Rightarrow> exn \<Rightarrow> arbiter \<Rightarrow> arbiter" where
  "console_warn msg e a = a\<lparr>warnings := warnings a @ [(msg, e)]\<rparr>"

text \<open>\<^verbatim>\<open>if (this.intervalId) clearInterval(this.intervalId)\<close>: a handle 0 is falsy.\<close>

definition clearInterval_if_set :: "arbiter \<Rightarrow> arbiter" where
  "clearInterval_if_set a =
     (case intervalId a of
        None \<Rightarrow> a
      | Some h \<Rightarrow> if h \<noteq> 0 then a\<lparr>interval_running := False\<rparr> else a)"

text \<open>
  The sweep of \<^verbatim>\<open>claimSession\<close>:
  \<^verbatim>\<open>for (let i = 0; i < localStorage.length; i++) { const key = localStorage.key(i); ... }\<close>.
  The length is read again at every iteration, and the index advances also after a
  removal.
\<close>

function claim_loop :: "nat \<Rightarrow> storage \<Rightarrow> storage result" where
  "claim_loop i ls =
     (case ls_length ls of
        Inl e \<Rightarrow> Thrown e ls
      | Inr n \<Rightarrow>
          if i < n then
            (case ls_key i ls of
               Inl e \<Rightarrow> Thrown e ls
             | Inr None \<Rightarrow> claim_loop (i + 1) ls
             | Inr (Some key) \<Rightarrow>
                 if is_claim_key key then
                   (case ls_removeItem key ls of
                      Inl e \<Rightarrow> Thrown e ls
                    | Inr ls' \<Rightarrow> claim_loop (i + 1) ls')
                 else claim_loop (i + 1) ls)
          else Returned ls)"
  by pat_completeness auto
termination
  apply (relation "measure (\<lambda>(i, ls). length (items ls) - i)")
     apply (auto simp: ls_length_def ls_removeItem_def split: if_splits)
  subgoal for i ls k
    using length_delete_le [of k "items ls"] by arith
  done

declare claim_loop.simps [simp del]

definition claimSession_try :: "arbiter \<Rightarrow> storage \<Rightarrow> (arbiter \<times> storage) result" where
  "claimSession_try a ls =
     (case claim_loop 0 ls of
        Thrown e ls1 \<Rightarrow> Thrown e (a, ls1)
      | Returned ls1 \<Rightarrow>
          (case ls_setItem (storageKey a) ''active'' ls1 of
             Inl e \<Rightarrow> Thrown e (a, ls1)
           | Inr ls2 \<Rightarrow> Returned (a\<lparr>isActiveSession := True\<rparr>, ls2)))"

definition claimSession :: "arbiter \<Rightarrow> storage \<Rightarrow> (arbiter \<times> storage) result" where
  "claimSession a ls =
     (case claimSession_try a ls of
        Returned s \<Rightarrow> Returned s
      | Thrown e (a', ls') \<Rightarrow>
          Returned (console_warn ''Could not access localStorage for session management:'' e a', ls'))"

text \<open>The handler registered for \<^verbatim>\<open>beforeunload\<close>.\<close>

definition beforeunload :: "arbiter \<Rightarrow> storage \<Rightarrow> (arbiter \<times> storage) result" where
  "beforeunload a ls =
     (if isActiveSession a then
        (case ls_removeItem (storageKey a) ls of
           Inl e \<Rightarrow> Returned (a, ls)
         | Inr ls' \<Rightarrow> Returned (a, ls'))
      else Returned (a, ls))"

text \<open>The callback given to \<^verbatim>\<open>window.setInterval\<close>: the periodic check.\<close>

definition periodicCheck_try :: "arbiter \<Rightarrow> storage \<Rightarrow> (arbiter \<times> storage) result" where
  "periodicCheck_try a ls =
     (case ls_getItem (storageKey a) ls of
        Inl e \<Rightarrow> Thrown e (a, ls)
      | Inr currentClaim \<Rightarrow>
          if currentClaim \<noteq> Some ''active'' then
            (let a1 = a\<lparr>isActiveSession := False\<rparr>;
                 a2 = a1\<lparr>conflict_calls := conflict_calls a1 + 1\<rparr>
             in if onConflict_throws a2 then Thrown CallbackError (a2, ls)
                else Returned (clearInterval_if_set a2, ls))
          else Returned (a, ls))"

definition periodicCheck :: "arbiter \<Rightarrow> storage \<Rightarrow> (arbiter \<times> storage) result" where
  "periodicCheck a ls =
     (if \<not> isActiveSession a then Returned (a, ls)
      else
        (case periodicCheck_try a ls of
           Returned s \<Rightarrow> Returned s
         | Thrown e (a', ls') \<Rightarrow>
             Returned (console_warn ''Error during periodic session check:'' e a', ls')))"

text \<open>
  \<^verbatim>\<open>setupListeners\<close> registers the unload handler and starts the interval; \<open>h\<close> is
  the handle \<^verbatim>\<open>window.setInterval\<close> returns. It touches no storage.
\<close>

definition setupListeners :: "nat \<Rightarrow> arbiter \<Rightarrow> arbiter" where
  "setupListeners h a = a\<lparr>intervalId := Some h, interval_running := True\<rparr>"

text \<open>
  The constructor. The session id (\<^verbatim>\<open>Date.now()\<close> and a random suffix), the behaviour
  of the callback and the timer handle come from the environment.
\<close>

definition new_ActiveSessionManager ::
  "string \<Rightarrow> bool \<Rightarrow> nat \<Rightarrow> storage \<Rightarrow> (arbiter \<times> storage) result" where
  "new_ActiveSessionManager sid cb_throws h ls =
     (let this = \<lparr>sessionId = sid,
                  storageKey = ACTIVE_SESSION_KEY_PREFIX @ sid,
                  intervalId = None,
                  isActiveSession = True,
                  onConflict_throws = cb_throws,
                  conflict_calls = 0,
                  warnings = [],
                  interval_running = False\<rparr>
      in case claimSession this ls of
           Thrown e s \<Rightarrow> Thrown e s
         | Returned (this1, ls1) \<Rightarrow> Returned (setupListeners h this1, ls1))"

definition isCurrentActiveSession :: "arbiter \<Rightarrow> bool" where
  "isCurrentActiveSession a = isActiveSession a"

definition releaseSession :: "arbiter \<Rightarrow> storage \<Rightarrow> (arbiter \<times> storage) result" where
  "releaseSession a ls =
     (let a1 = clearInterval_if_set a
      in if isActiveSession a1 then
           (case ls_removeItem (storageKey a1) ls of
              Inl e \<Rightarrow> Returned (a1, ls)
            | Inr ls' \<Rightarrow> Returned (a1, ls'))
         else Returned (a1, ls))"

section \<open>Scenarios\<close>

text \<open>The claim keys present in the storage, in enumeration order.\<close>

definition claim_keys :: "storage \<Rightarrow> string list" where
  "claim_keys ls = filter is_claim_key (map fst (items ls))"

text \<open>
  What can happen to an instance after its construction: the timer fires, the page
  calls one of the two public methods, the page is unloaded, or something else (another
  tab, the user) leaves the storage in a new state. \<open>PeriodicCheck\<close> runs the timer
  callback whether or not the interval is still scheduled, so the sequences include every
  tick that can occur.
\<close>

datatype event =
    PeriodicCheck
  | ReleaseSession
  | IsCurrentActiveSession
  | BeforeUnload
  | Environment storage

fun step :: "event \<Rightarrow> arbiter \<Rightarrow> storage \<Rightarrow> (arbiter \<times> storage) result" where
  "step PeriodicCheck a ls = periodicCheck a ls"
| "step ReleaseSession a ls = releaseSession a ls"
| "step IsCurrentActiveSession a ls = Returned (a, ls)"
| "step BeforeUnload a ls = beforeunload a ls"
| "step (Environment ls') a ls = Returned (a, ls')"

fun run :: "event list \<Rightarrow> arbiter \<Rightarrow> storage \<Rightarrow> (arbiter \<times> storage) result" where
  "run [] a ls = Returned (a, ls)"
| "run (ev # evs) a ls =
     (case step ev a ls of
        Thrown e s \<Rightarrow> Thrown e s
      | Returned (a', ls') \<Rightarrow> run evs a' ls')"

text \<open>The periodic check run \<open>n\<close> times in a row.\<close>

fun periodicChecks :: "nat \<Rightarrow> arbiter \<Rightarrow> storage \<Rightarrow> (arbiter \<times> storage) result" where
  "periodicChecks 0 a ls = Returned (a, ls)"
| "periodicChecks (Suc n) a ls =
     (case periodicCheck a ls of
        Thrown e s \<Rightarrow> Thrown e s
      | Returned (a', ls') \<Rightarrow> periodicChecks n a' ls')"

text \<open>
  Instances constructed in strict sequence, one per session id, on the storage the
  previous one left. The result lists the instances in construction order.
\<close>

fun construct_seq ::
  "(string \<times> bool \<times> nat) list \<Rightarrow> storage \<Rightarrow> (arbiter list \<times> storage) result" where
  "construct_seq [] ls = Returned ([], ls)"
| "construct_seq ((sid, cb_throws, h) # rest) ls =
     (case new_ActiveSessionManager sid cb_throws h ls of
        Thrown e (a, ls') \<Rightarrow> Thrown e ([a], ls')
      | Returned (a, ls') \<Rightarrow>
          (case construct_seq rest ls' of
             Thrown e (as, ls'') \<Rightarrow> Thrown e (a # as, ls'')
           | Returned (as, ls'') \<Rightarrow> Returned (a # as, ls'')))"

text \<open>The state a call leaves, whether it returned or threw.\<close>

fun state_of :: "'a result \<Rightarrow> 'a" where
  "state_of (Returned s) = s"
| "state_of (Thrown e s) = s"

section \<open>The sweep, one iteration at a time\<close>

lemma claim_loop_throw_length:
  "OpLength \<in> throwing ls \<Longrightarrow> claim_loop i ls = Thrown (StorageError OpLength) ls"
  by (subst claim_loop.simps) (simp add: ls_length_def)

lemma claim_loop_done:
  "OpLength \<notin> throwing ls \<Longrightarrow> length (items ls) \<le> i \<Longrightarrow> claim_loop i ls = Returned ls"
  by (subst claim_loop.simps) (simp add: ls_length_def)

lemma claim_loop_throw_key:
  "OpLength \<notin> throwing ls \<Longrightarrow> i < length (items ls) \<Longrightarrow> OpKey \<in> throwing ls \<Longrightarrow>
   claim_loop i ls = Thrown (StorageError OpKey) ls"
  by (subst claim_loop.simps) (simp add: ls_length_def ls_key_def)

lemma claim_loop_skip:
  "OpLength \<notin> throwing ls \<Longrightarrow> i < length (items ls) \<Longrightarrow> OpKey \<notin> throwing ls \<Longrightarrow>
   \<not> is_claim_key (fst (items ls ! i)) \<Longrightarrow> claim_loop i ls = claim_loop (Suc i) ls"
  by (subst claim_loop.simps) (simp add: ls_length_def ls_key_def)

lemma claim_loop_throw_remove:
  "OpLength \<notin> throwing ls \<Longrightarrow> i < length (items ls) \<Longrightarrow> OpKey \<notin> throwing ls \<Longrightarrow>
   is_claim_key (fst (items ls ! i)) \<Longrightarrow> OpRemoveItem \<in> throwing ls \<Longrightarrow>
   claim_loop i ls = Thrown (StorageError OpRemoveItem) ls"
  by (subst claim_loop.simps) (simp add: ls_length_def ls_key_def ls_removeItem_def)

lemma claim_loop_remove:
  "OpLength \<notin> throwing ls \<Longrightarrow> i < length (items ls) \<Longrightarrow> OpKey \<notin> throwing ls \<Longrightarrow>
   is_claim_key (fst (items ls ! i)) \<Longrightarrow> OpRemoveItem \<notin> throwing ls \<Longrightarrow>
   claim_loop i ls =
     claim_loop (Suc i) (ls\<lparr>items := AList.delete (fst (items ls ! i)) (items ls)\<rparr>)"
  by (subst claim_loop.simps) (simp add: ls_length_def ls_key_def ls_removeItem_def)

lemma claim_loop_cases_induct [case_names step]:
  fixes P :: "nat \<Rightarrow> storage \<Rightarrow> bool"
  assumes "\<And>i ls.
     (OpLength \<notin> throwing ls \<Longrightarrow> i < length (items ls) \<Longrightarrow> OpKey \<notin> throwing ls \<Longrightarrow>
        \<not> is_claim_key (fst (items ls ! i)) \<Longrightarrow> P (Suc i) ls) \<Longrightarrow>
     (OpLength \<notin> throwing ls \<Longrightarrow> i < length (items ls) \<Longrightarrow> OpKey \<notin> throwing ls \<Longrightarrow>
        is_claim_key (fst (items ls ! i)) \<Longrightarrow> OpRemoveItem \<notin> throwing ls \<Longrightarrow>
        P (Suc i) (ls\<lparr>items := AList.delete (fst (items ls ! i)) (items ls)\<rparr>)) \<Longrightarrow>
     P i ls"
  shows "P i ls"
proof (induction i ls rule: claim_loop.induct)
  case (1 i ls)
  show ?case
  proof (rule assms)
    assume "OpLength \<notin> throwing ls" "i < length (items ls)" "OpKey \<notin> throwing ls"
      "\<not> is_claim_key (fst (items ls ! i))"
    then show "P (Suc i) ls"
      using "1.IH"(3) by (simp add: ls_length_def ls_key_def)
  next
    assume "OpLength \<notin> throwing ls" "i < length (items ls)" "OpKey \<notin> throwing ls"
      "is_claim_key (fst (items ls ! i))" "OpRemoveItem \<notin> throwing ls"
    then show "P (Suc i) (ls\<lparr>items := AList.delete (fst (items ls ! i)) (items ls)\<rparr>)"
      using "1.IH"(2) by (simp add: ls_length_def ls_key_def ls_removeItem_def)
  qed
qed

lemma claim_loop_unfold_cases [case_names throw_length finished throw_key skip throw_remove remove]:
  obtains
    "OpLength \<in> throwing ls" "claim_loop i ls = Thrown (StorageError OpLength) ls"
  | "OpLength \<notin> throwing ls" "length (items ls) \<le> i" "claim_loop i ls = Returned ls"
  | "OpLength \<notin> throwing ls" "i < length (items ls)" "OpKey \<in> throwing ls"
    "claim_loop i ls = Thrown (StorageError OpKey) ls"
  | "OpLength \<notin> throwing ls" "i < length (items ls)" "OpKey \<notin> throwing ls"
    "\<not> is_claim_key (fst (items ls ! i))" "claim_loop i ls = claim_loop (Suc i) ls"
  | "OpLength \<notin> throwing ls" "i < length (items ls)" "OpKey \<notin> throwing ls"
    "is_claim_key (fst (items ls ! i))" "OpRemoveItem \<in> throwing ls"
    "claim_loop i ls = Thrown (StorageError OpRemoveItem) ls"
  | "OpLength \<notin> throwing ls" "i < length (items ls)" "OpKey \<notin> throwing ls"
    "is_claim_key (fst (items ls ! i))" "OpRemoveItem \<notin> throwing ls"
    "claim_loop i ls =
       claim_loop (Suc i) (ls\<lparr>items := AList.delete (fst (items ls ! i)) (items ls)\<rparr>)"
proof (cases "OpLength \<in> throwing ls")
  case True
  then show ?thesis using that(1) claim_loop_throw_length by blast
next
  case len: False
  show ?thesis
  proof (cases "i < length (items ls)")
    case False
    then show ?thesis using that(2) len claim_loop_done [of ls i] by simp
  next
    case lt: True
    show ?thesis
    proof (cases "OpKey \<in> throwing ls")
      case True
      then show ?thesis using that(3) len lt claim_loop_throw_key by blast
    next
      case key: False
      show ?thesis
      proof (cases "is_claim_key (fst (items ls ! i))")
        case False
        then show ?thesis using that(4) len lt key claim_loop_skip by blast
      next
        case claim: True
        show ?thesis
        proof (cases "OpRemoveItem \<in> throwing ls")
          case True
          then show ?thesis using that(5) len lt key claim claim_loop_throw_remove by blast
        next
          case False
          then show ?thesis using that(6) len lt key claim claim_loop_remove by blast
        qed
      qed
    qed
  qed
qed

lemma claim_loop_throwing: "throwing (state_of (claim_loop i ls)) = throwing ls"
proof (induction i ls rule: claim_loop_cases_induct)
  case (step i ls)
  show ?case
  proof (cases i ls rule: claim_loop_unfold_cases)
    case skip
    then show ?thesis using step(1) by simp
  next
    case remove
    then show ?thesis using step(2) by simp
  qed simp_all
qed

lemma set_delete_subset: "set (AList.delete k al) \<subseteq> set al"
  by (auto simp: AList.delete_eq)

lemma claim_loop_items_subset: "set (items (state_of (claim_loop i ls))) \<subseteq> set (items ls)"
proof (induction i ls rule: claim_loop_cases_induct)
  case (step i ls)
  show ?case
  proof (cases i ls rule: claim_loop_unfold_cases)
    case skip
    then show ?thesis using step(1) by simp
  next
    case remove
    then show ?thesis
      using step(2) set_delete_subset [of "fst (items ls ! i)" "items ls"] by auto
  qed simp_all
qed

lemma claim_loop_no_claims:
  assumes "OpLength \<notin> throwing ls" "OpKey \<notin> throwing ls"
    and "\<forall>kv \<in> set (items ls). \<not> is_claim_key (fst kv)"
  shows "claim_loop i ls = Returned ls"
  using assms
proof (induction i ls rule: claim_loop_cases_induct)
  case (step i ls)
  show ?case
  proof (cases i ls rule: claim_loop_unfold_cases)
    case skip
    then show ?thesis using step by simp
  next
    case remove
    then show ?thesis using step.prems by (auto dest: nth_mem)
  qed (use step.prems in simp_all)
qed

lemma delete_single:
  assumes "\<forall>kv \<in> set pre \<union> set post. fst kv \<noteq> k"
  shows "AList.delete k (pre @ (k, v) # post) = pre @ post"
proof -
  have "k \<notin> fst ` set post" using assms by auto
  then have "AList.delete k post = post" by (rule delete_id)
  then show ?thesis using assms by (induction pre) auto
qed

lemma claim_loop_single:
  assumes "OpLength \<notin> throwing ls" "OpKey \<notin> throwing ls" "OpRemoveItem \<notin> throwing ls"
    and "items ls = pre @ (k, v) # post" and "is_claim_key k"
    and "\<forall>kv \<in> set pre \<union> set post. \<not> is_claim_key (fst kv)"
    and "i \<le> length pre"
  shows "claim_loop i ls = Returned (ls\<lparr>items := pre @ post\<rparr>)"
  using assms(7)
proof (induction "length pre - i" arbitrary: i)
  case 0
  then have i: "i = length pre" by simp
  have at: "items ls ! i = (k, v)" using assms(4) i by simp
  have "\<forall>kv \<in> set pre \<union> set post. fst kv \<noteq> k" using assms(5,6) by auto
  then have del: "AList.delete k (items ls) = pre @ post"
    using assms(4) by (simp add: delete_single)
  have "claim_loop i ls = claim_loop (Suc i) (ls\<lparr>items := pre @ post\<rparr>)"
    using claim_loop_remove [of ls i] assms(1-5) i at del by simp
  also have "\<dots> = Returned (ls\<lparr>items := pre @ post\<rparr>)"
    using assms(1,2,6) by (intro claim_loop_no_claims) auto
  finally show ?case .
next
  case (Suc n)
  then have lt: "i < length pre" by simp
  then have at: "items ls ! i = pre ! i" using assms(4) by (simp add: nth_append)
  have "\<not> is_claim_key (fst (items ls ! i))" using at lt assms(6) by simp
  then have "claim_loop i ls = claim_loop (Suc i) ls"
    using claim_loop_skip [of ls i] assms(1,2,4) lt by simp
  also have "\<dots> = Returned (ls\<lparr>items := pre @ post\<rparr>)"
    using Suc lt by (intro Suc.hyps(1)) auto
  finally show ?case .
qed

lemma claim_loop_at_most_one:
  assumes "OpLength \<notin> throwing ls" "OpKey \<notin> throwing ls" "OpRemoveItem \<notin> throwing ls"
    and "length (claim_keys ls) \<le> 1"
  shows "claim_loop 0 ls =
           Returned (ls\<lparr>items := filter (\<lambda>kv. \<not> is_claim_key (fst kv)) (items ls)\<rparr>)"
proof (cases "claim_keys ls")
  case Nil
  then have none: "\<forall>kv \<in> set (items ls). \<not> is_claim_key (fst kv)"
    by (auto simp: claim_keys_def filter_empty_conv)
  then have "filter (\<lambda>kv. \<not> is_claim_key (fst kv)) (items ls) = items ls"
    by (simp add: filter_id_conv)
  then show ?thesis using claim_loop_no_claims [OF assms(1,2) none, of 0] by simp
next
  case (Cons k rest)
  then have rest: "rest = []" using assms(4) by simp
  from Cons obtain us vs where
    split: "map fst (items ls) = us @ k # vs" and us: "\<forall>u \<in> set us. \<not> is_claim_key u"
    and k: "is_claim_key k" and vs: "rest = filter is_claim_key vs"
    unfolding claim_keys_def filter_eq_Cons_iff by blast
  from split obtain pre v post where
    its: "items ls = pre @ (k, v) # post" and pre: "map fst pre = us" and post: "map fst post = vs"
    by (auto simp: map_eq_append_conv map_eq_Cons_conv)
  have clean: "\<forall>kv \<in> set pre \<union> set post. \<not> is_claim_key (fst kv)"
    using us vs rest pre post by (force simp: filter_empty_conv empty_filter_conv)
  then have "filter (\<lambda>kv. \<not> is_claim_key (fst kv)) (items ls) = pre @ post"
    using its k by (simp add: filter_id_conv)
  then show ?thesis
    using claim_loop_single [OF assms(1-3) its k clean, of 0] by simp
qed

section \<open>The operations never throw\<close>

lemma is_claim_key_prefixed: "is_claim_key (ACTIVE_SESSION_KEY_PREFIX @ sid)"
  by (simp add: is_claim_key_def startsWith_def ACTIVE_SESSION_KEY_PREFIX_def)

lemma update_fresh: "k \<notin> fst ` set al \<Longrightarrow> AList.update k v al = al @ [(k, v)]"
  by (induction al) auto

lemma claimSession_cases [case_names claimed failed]:
  obtains ls' where
      "claim_loop 0 ls = Returned (ls'\<lparr>items := items (state_of (claim_loop 0 ls))\<rparr>)"
      "OpSetItem \<notin> throwing ls"
      "claimSession a ls =
         Returned (a\<lparr>isActiveSession := True\<rparr>,
                   state_of (claim_loop 0 ls)
                     \<lparr>items := AList.update (storageKey a) ''active''
                                 (items (state_of (claim_loop 0 ls)))\<rparr>)"
  | e where
      "claimSession a ls =
         Returned (console_warn ''Could not access localStorage for session management:'' e a,
                   state_of (claim_loop 0 ls))"
proof (cases "claim_loop 0 ls")
  case (Thrown e ls1)
  then show ?thesis using that(2) [of e] by (simp add: claimSession_def claimSession_try_def)
next
  case (Returned ls1)
  have thr: "throwing ls1 = throwing ls" using claim_loop_throwing [of 0 ls] Returned by simp
  show ?thesis
  proof (cases "OpSetItem \<in> throwing ls")
    case True
    then show ?thesis
      using that(2) [of "StorageError OpSetItem"] Returned thr
      by (simp add: claimSession_def claimSession_try_def ls_setItem_def)
  next
    case False
    then show ?thesis
      using that(1) [of ls1] Returned thr
      by (simp add: claimSession_def claimSession_try_def ls_setItem_def)
  qed
qed

lemma new_ActiveSessionManager_shape:
  "\<exists>ws ls'. new_ActiveSessionManager sid cb h ls =
     Returned (\<lparr>sessionId = sid, storageKey = ACTIVE_SESSION_KEY_PREFIX @ sid,
                intervalId = Some h, isActiveSession = True, onConflict_throws = cb,
                conflict_calls = 0, warnings = ws, interval_running = True\<rparr>, ls')"
proof -
  define this where "this = \<lparr>sessionId = sid, storageKey = ACTIVE_SESSION_KEY_PREFIX @ sid,
    intervalId = None, isActiveSession = True, onConflict_throws = cb, conflict_calls = 0,
    warnings = [], interval_running = False\<rparr>"
  have unfold: "new_ActiveSessionManager sid cb h ls =
      (case claimSession this ls of Thrown e s \<Rightarrow> Thrown e s
       | Returned (this1, ls1) \<Rightarrow> Returned (setupListeners h this1, ls1))"
    by (simp add: new_ActiveSessionManager_def this_def)
  show ?thesis
  proof (cases this ls rule: claimSession_cases)
    case (claimed ls')
    then show ?thesis unfolding unfold by (simp add: this_def setupListeners_def)
  next
    case (failed e)
    then show ?thesis unfolding unfold by (simp add: this_def setupListeners_def console_warn_def)
  qed
qed

lemma periodicCheck_inactive:
  "\<not> isActiveSession a \<Longrightarrow> periodicCheck a ls = Returned (a, ls)"
  by (simp add: periodicCheck_def)

lemma periodicCheck_throw:
  "isActiveSession a \<Longrightarrow> OpGetItem \<in> throwing ls \<Longrightarrow>
   periodicCheck a ls =
     Returned (console_warn ''Error during periodic session check:'' (StorageError OpGetItem) a, ls)"
  by (simp add: periodicCheck_def periodicCheck_try_def ls_getItem_def)

lemma periodicCheck_keep:
  "OpGetItem \<notin> throwing ls \<Longrightarrow> map_of (items ls) (storageKey a) = Some ''active'' \<Longrightarrow>
   periodicCheck a ls = Returned (a, ls)"
  by (simp add: periodicCheck_def periodicCheck_try_def ls_getItem_def)

lemma periodicCheck_evict:
  assumes "isActiveSession a" "OpGetItem \<notin> throwing ls"
    "map_of (items ls) (storageKey a) \<noteq> Some ''active''"
  shows "\<exists>a'. periodicCheck a ls = Returned (a', ls) \<and> \<not> isActiveSession a' \<and>
           conflict_calls a' = conflict_calls a + 1 \<and> storageKey a' = storageKey a"
  using assms
  by (auto simp: periodicCheck_def periodicCheck_try_def ls_getItem_def Let_def
        clearInterval_if_set_def console_warn_def split: option.splits)

lemma periodicCheck_result:
  "\<exists>a'. periodicCheck a ls = Returned (a', ls) \<and> storageKey a' = storageKey a \<and>
     (isActiveSession a' \<longrightarrow> isActiveSession a) \<and>
     conflict_calls a' + of_bool (isActiveSession a') =
       conflict_calls a + of_bool (isActiveSession a)"
  by (auto simp: periodicCheck_def periodicCheck_try_def ls_getItem_def Let_def
        clearInterval_if_set_def console_warn_def split: option.splits)

lemma periodicChecks_inactive:
  "\<not> isActiveSession a \<Longrightarrow> periodicChecks n a ls = Returned (a, ls)"
  by (induction n) (simp_all add: periodicCheck_inactive)

lemma clearInterval_fields [simp]:
  "isActiveSession (clearInterval_if_set a) = isActiveSession a"
  "storageKey (clearInterval_if_set a) = storageKey a"
  "conflict_calls (clearInterval_if_set a) = conflict_calls a"
  "warnings (clearInterval_if_set a) = warnings a"
  "intervalId (clearInterval_if_set a) = intervalId a"
  by (simp_all add: clearInterval_if_set_def split: option.splits)

lemma clearInterval_idem [simp]:
  "clearInterval_if_set (clearInterval_if_set a) = clearInterval_if_set a"
  by (simp add: clearInterval_if_set_def split: option.splits)

lemma releaseSession_result:
  "\<exists>ls'. releaseSession a ls = Returned (clearInterval_if_set a, ls')"
  by (auto simp: releaseSession_def Let_def split: sum.splits)

lemma beforeunload_result: "\<exists>ls'. beforeunload a ls = Returned (a, ls')"
  by (auto simp: beforeunload_def split: sum.splits)

lemma step_result:
  "\<exists>a' ls'. step ev a ls = Returned (a', ls') \<and> storageKey a' = storageKey a \<and>
     (isActiveSession a' \<longrightarrow> isActiveSession a) \<and>
     conflict_calls a' + of_bool (isActiveSession a') =
       conflict_calls a + of_bool (isActiveSession a)"
proof (cases ev)
  case PeriodicCheck
  then show ?thesis using periodicCheck_result [of a ls] by auto
next
  case ReleaseSession
  from releaseSession_result [of a ls] obtain ls' where
    "releaseSession a ls = Returned (clearInterval_if_set a, ls')" by blast
  then show ?thesis
    using ReleaseSession by (intro exI [of _ "clearInterval_if_set a"] exI [of _ ls']) simp
next
  case BeforeUnload
  from beforeunload_result [of a ls] obtain ls' where
    "beforeunload a ls = Returned (a, ls')" by blast
  then show ?thesis using BeforeUnload by (intro exI [of _ a] exI [of _ ls']) simp
qed simp_all

lemma run_result:
  "\<exists>a' ls'. run evs a ls = Returned (a', ls') \<and> storageKey a' = storageKey a \<and>
     (isActiveSession a' \<longrightarrow> isActiveSession a) \<and>
     conflict_calls a' + of_bool (isActiveSession a') =
       conflict_calls a + of_bool (isActiveSession a)"
proof (induction evs arbitrary: a ls)
  case Nil
  show ?case by simp
next
  case (Cons ev evs)
  from step_result [of ev a ls] obtain a1 ls1 where
    s: "step ev a ls = Returned (a1, ls1)" "storageKey a1 = storageKey a"
    "isActiveSession a1 \<longrightarrow> isActiveSession a"
    "conflict_calls a1 + of_bool (isActiveSession a1) =
       conflict_calls a + of_bool (isActiveSession a)" by blast
  from Cons.IH [of a1 ls1] obtain a2 ls2 where
    r: "run evs a1 ls1 = Returned (a2, ls2)" "storageKey a2 = storageKey a1"
    "isActiveSession a2 \<longrightarrow> isActiveSession a1"
    "conflict_calls a2 + of_bool (isActiveSession a2) =
       conflict_calls a1 + of_bool (isActiveSession a1)" by blast
  have 1: "run (ev # evs) a ls = Returned (a2, ls2)" using s(1) r(1) by simp
  have 2: "storageKey a2 = storageKey a" using s(2) r(2) by simp
  have 3: "isActiveSession a2 \<longrightarrow> isActiveSession a" using s(3) r(3) by blast
  have 4: "conflict_calls a2 + of_bool (isActiveSession a2) =
       conflict_calls a + of_bool (isActiveSession a)" using s(4) r(4) by (rule trans [rotated])
  show ?case using 1 2 3 4 by blast
qed

section \<open>Construction on a storage with at most one claim key\<close>

lemma claim_keys_swept:
  "claim_keys (ls\<lparr>items := filter (\<lambda>kv. \<not> is_claim_key (fst kv)) xs
                          @ [(ACTIVE_SESSION_KEY_PREFIX @ sid, v)]\<rparr>)
     = [ACTIVE_SESSION_KEY_PREFIX @ sid]"
  by (simp add: claim_keys_def is_claim_key_prefixed filter_map o_def)

lemma claimSession_swept:
  assumes "OpLength \<notin> throwing ls" "OpKey \<notin> throwing ls" "OpRemoveItem \<notin> throwing ls"
    "OpSetItem \<notin> throwing ls" and "length (claim_keys ls) \<le> 1"
    and "is_claim_key (storageKey a)"
  shows "claimSession a ls =
           Returned (a\<lparr>isActiveSession := True\<rparr>,
                     ls\<lparr>items := filter (\<lambda>kv. \<not> is_claim_key (fst kv)) (items ls)
                                   @ [(storageKey a, ''active'')]\<rparr>)"
proof -
  let ?kept = "filter (\<lambda>kv. \<not> is_claim_key (fst kv)) (items ls)"
  have loop: "claim_loop 0 ls = Returned (ls\<lparr>items := ?kept\<rparr>)"
    using assms(1-3,5) by (rule claim_loop_at_most_one)
  have "storageKey a \<notin> fst ` set ?kept" using assms(6) by auto
  then have "AList.update (storageKey a) ''active'' ?kept = ?kept @ [(storageKey a, ''active'')]"
    by (rule update_fresh)
  then show ?thesis
    using loop assms(4) by (simp add: claimSession_def claimSession_try_def ls_setItem_def)
qed

lemma new_ActiveSessionManager_swept:
  assumes "OpLength \<notin> throwing ls" "OpKey \<notin> throwing ls" "OpRemoveItem \<notin> throwing ls"
    "OpSetItem \<notin> throwing ls" and "length (claim_keys ls) \<le> 1"
  shows "new_ActiveSessionManager sid cb h ls =
     Returned (\<lparr>sessionId = sid, storageKey = ACTIVE_SESSION_KEY_PREFIX @ sid,
                intervalId = Some h, isActiveSession = True, onConflict_throws = cb,
                conflict_calls = 0, warnings = [], interval_running = True\<rparr>,
               ls\<lparr>items := filter (\<lambda>kv. \<not> is_claim_key (fst kv)) (items ls)
                             @ [(ACTIVE_SESSION_KEY_PREFIX @ sid, ''active'')]\<rparr>)"
proof -
  define this where "this = \<lparr>sessionId = sid, storageKey = ACTIVE_SESSION_KEY_PREFIX @ sid,
    intervalId = None, isActiveSession = True, onConflict_throws = cb, conflict_calls = 0,
    warnings = [], interval_running = False\<rparr>"
  have key: "is_claim_key (storageKey this)" by (simp add: this_def is_claim_key_prefixed)
  have "new_ActiveSessionManager sid cb h ls =
      (case claimSession this ls of Thrown e s \<Rightarrow> Thrown e s
       | Returned (this1, ls1) \<Rightarrow> Returned (setupListeners h this1, ls1))"
    by (simp add: new_ActiveSessionManager_def this_def)
  then show ?thesis
    using claimSession_swept [OF assms key]
    by (simp add: this_def setupListeners_def)
qed

lemma construct_seq_at_most_one:
  assumes "throwing ls = {}" and "length (claim_keys ls) \<le> 1" and "args \<noteq> []"
  shows "\<exists>as ls'. construct_seq args ls = Returned (as, ls') \<and>
           map sessionId as = map fst args \<and>
           storageKey (last as) = ACTIVE_SESSION_KEY_PREFIX @ fst (last args) \<and>
           claim_keys ls' = [storageKey (last as)] \<and>
           map_of (items ls') (storageKey (last as)) = Some ''active''"
  using assms
proof (induction args arbitrary: ls)
  case Nil
  then show ?case by simp
next
  case (Cons x rest)
  obtain sid cb h where x: "x = (sid, cb, h)" by (cases x)
  define a where "a = \<lparr>sessionId = sid, storageKey = ACTIVE_SESSION_KEY_PREFIX @ sid,
                intervalId = Some h, isActiveSession = True, onConflict_throws = cb,
                conflict_calls = 0, warnings = [], interval_running = True\<rparr>"
  define ls1 where "ls1 = ls\<lparr>items := filter (\<lambda>kv. \<not> is_claim_key (fst kv)) (items ls)
                             @ [(ACTIVE_SESSION_KEY_PREFIX @ sid, ''active'')]\<rparr>"
  have new: "new_ActiveSessionManager sid cb h ls = Returned (a, ls1)"
    unfolding a_def ls1_def
    using Cons.prems(1,2) by (intro new_ActiveSessionManager_swept) simp_all
  have keys1: "claim_keys ls1 = [ACTIVE_SESSION_KEY_PREFIX @ sid]"
    unfolding ls1_def by (rule claim_keys_swept)
  have thr1: "throwing ls1 = {}" using Cons.prems(1) by (simp add: ls1_def)
  have val1: "map_of (items ls1) (ACTIVE_SESSION_KEY_PREFIX @ sid) = Some ''active''"
    using is_claim_key_prefixed [of sid]
    by (simp add: ls1_def map_add_Some_iff map_of_eq_None_iff image_iff)
  show ?case
  proof (cases "rest = []")
    case True
    then show ?thesis using new keys1 val1 x by (simp add: a_def)
  next
    case False
    from Cons.IH [OF thr1 _ False] keys1 obtain as ls' where
      r: "construct_seq rest ls1 = Returned (as, ls')" "map sessionId as = map fst rest"
      "storageKey (last as) = ACTIVE_SESSION_KEY_PREFIX @ fst (last rest)"
      "claim_keys ls' = [storageKey (last as)]"
      "map_of (items ls') (storageKey (last as)) = Some ''active''"
      by auto
    have "as \<noteq> []" using r(2) False by auto
    then show ?thesis using new r x False by (simp add: a_def)
  qed
qed

lemma map_of_swept:
  "map_of (filter (\<lambda>kv. \<not> is_claim_key (fst kv)) xs @ [(ACTIVE_SESSION_KEY_PREFIX @ sid, v)])
      (ACTIVE_SESSION_KEY_PREFIX @ sid') = (if sid' = sid then Some v else None)"
proof -
  have "ACTIVE_SESSION_KEY_PREFIX @ sid' \<notin> fst ` set (filter (\<lambda>kv. \<not> is_claim_key (fst kv)) xs)"
    using is_claim_key_prefixed [of sid'] by auto
  then have "map_of (filter (\<lambda>kv. \<not> is_claim_key (fst kv)) xs) (ACTIVE_SESSION_KEY_PREFIX @ sid') = None"
    by (simp add: map_of_eq_None_iff)
  then show ?thesis by (simp add: map_add_def)
qed

lemma takeover_evicts_first:
  assumes "throwing ls = {}" and "length (claim_keys ls) \<le> 1" and "sidA \<noteq> sidB"
  shows "\<exists>A B ls2 A'.
           construct_seq [(sidA, cbA, hA), (sidB, cbB, hB)] ls = Returned ([A, B], ls2) \<and>
           periodicCheck A ls2 = Returned (A', ls2) \<and>
           \<not> isCurrentActiveSession A' \<and> conflict_calls A' = 1 \<and>
           periodicCheck B ls2 = Returned (B, ls2) \<and> isCurrentActiveSession B"
proof -
  let ?keep = "filter (\<lambda>kv. \<not> is_claim_key (fst kv))"
  define A where "A = \<lparr>sessionId = sidA, storageKey = ACTIVE_SESSION_KEY_PREFIX @ sidA,
                intervalId = Some hA, isActiveSession = True, onConflict_throws = cbA,
                conflict_calls = 0, warnings = [], interval_running = True\<rparr>"
  define B where "B = \<lparr>sessionId = sidB, storageKey = ACTIVE_SESSION_KEY_PREFIX @ sidB,
                intervalId = Some hB, isActiveSession = True, onConflict_throws = cbB,
                conflict_calls = 0, warnings = [], interval_running = True\<rparr>"
  define ls1 where "ls1 = ls\<lparr>items := ?keep (items ls) @ [(ACTIVE_SESSION_KEY_PREFIX @ sidA, ''active'')]\<rparr>"
  define ls2 where "ls2 = ls1\<lparr>items := ?keep (items ls1) @ [(ACTIVE_SESSION_KEY_PREFIX @ sidB, ''active'')]\<rparr>"
  have newA: "new_ActiveSessionManager sidA cbA hA ls = Returned (A, ls1)"
    unfolding A_def ls1_def using assms(1,2) by (intro new_ActiveSessionManager_swept) simp_all
  have keys1: "length (claim_keys ls1) \<le> 1" unfolding ls1_def by (simp add: claim_keys_swept)
  have thr1: "throwing ls1 = {}" using assms(1) by (simp add: ls1_def)
  have newB: "new_ActiveSessionManager sidB cbB hB ls1 = Returned (B, ls2)"
    unfolding B_def ls2_def using thr1 keys1 by (intro new_ActiveSessionManager_swept) simp_all
  have seq: "construct_seq [(sidA, cbA, hA), (sidB, cbB, hB)] ls = Returned ([A, B], ls2)"
    using newA newB by simp
  have thr2: "OpGetItem \<notin> throwing ls2" using thr1 by (simp add: ls2_def)
  have items2: "items ls2 = ?keep (items ls) @ [(ACTIVE_SESSION_KEY_PREFIX @ sidB, ''active'')]"
    using is_claim_key_prefixed [of sidA] by (simp add: ls2_def ls1_def)
  have kA: "storageKey A = ACTIVE_SESSION_KEY_PREFIX @ sidA" by (simp add: A_def)
  have kB: "storageKey B = ACTIVE_SESSION_KEY_PREFIX @ sidB" by (simp add: B_def)
  have goneA: "map_of (items ls2) (storageKey A) = None"
    unfolding items2 kA by (subst map_of_swept) (simp add: assms(3))
  have hereB: "map_of (items ls2) (storageKey B) = Some ''active''"
    unfolding items2 kB by (subst map_of_swept) simp
  from periodicCheck_evict [of A ls2] goneA thr2 obtain A' where
    A': "periodicCheck A ls2 = Returned (A', ls2)" "\<not> isActiveSession A'"
    "conflict_calls A' = conflict_calls A + 1"
    by (auto simp: A_def)
  have keepB: "periodicCheck B ls2 = Returned (B, ls2)"
    using thr2 hereB by (rule periodicCheck_keep)
  show ?thesis
    using seq A' keepB
    by (intro exI [of _ A] exI [of _ B] exI [of _ ls2] exI [of _ A'])
       (simp add: isCurrentActiveSession_def A_def B_def)
qed

lemma periodicChecks_throw:
  assumes "isActiveSession a" and "OpGetItem \<in> throwing ls"
  shows "periodicChecks n a ls =
           Returned (a\<lparr>warnings := warnings a @
                        replicate n (''Error during periodic session check:'',
                                     StorageError OpGetItem)\<rparr>, ls)"
  using assms(1)
proof (induction n arbitrary: a)
  case 0
  show ?case by simp
next
  case (Suc n)
  let ?w = "(''Error during periodic session check:'', StorageError OpGetItem)"
  let ?a1 = "console_warn ''Error during periodic session check:'' (StorageError OpGetItem) a"
  have one: "periodicCheck a ls = Returned (?a1, ls)"
    using Suc.prems assms(2) by (rule periodicCheck_throw)
  have act: "isActiveSession ?a1" using Suc.prems by (simp add: console_warn_def)
  have "periodicChecks (Suc n) a ls = periodicChecks n ?a1 ls" using one by simp
  also have "\<dots> = Returned (?a1\<lparr>warnings := warnings ?a1 @ replicate n ?w\<rparr>, ls)"
    using act by (rule Suc.IH)
  also have "?a1\<lparr>warnings := warnings ?a1 @ replicate n ?w\<rparr>
      = a\<lparr>warnings := warnings a @ replicate (Suc n) ?w\<rparr>"
    by (simp add: console_warn_def)
  finally show ?case .
qed

lemma new_ActiveSessionManager_write_fails:
  assumes "OpSetItem \<in> throwing ls"
  shows "\<exists>e. new_ActiveSessionManager sid cb h ls =
     Returned (\<lparr>sessionId = sid, storageKey = ACTIVE_SESSION_KEY_PREFIX @ sid,
                intervalId = Some h, isActiveSession = True, onConflict_throws = cb,
                conflict_calls = 0,
                warnings = [(''Could not access localStorage for session management:'', e)],
                interval_running = True\<rparr>,
               state_of (claim_loop 0 ls))"
proof -
  define this where "this = \<lparr>sessionId = sid, storageKey = ACTIVE_SESSION_KEY_PREFIX @ sid,
    intervalId = None, isActiveSession = True, onConflict_throws = cb, conflict_calls = 0,
    warnings = [], interval_running = False\<rparr>"
  have unfold: "new_ActiveSessionManager sid cb h ls =
      (case claimSession this ls of Thrown e s \<Rightarrow> Thrown e s
       | Returned (this1, ls1) \<Rightarrow> Returned (setupListeners h this1, ls1))"
    by (simp add: new_ActiveSessionManager_def this_def)
  show ?thesis
  proof (cases this ls rule: claimSession_cases)
    case (claimed ls')
    then show ?thesis using assms by simp
  next
    case (failed e)
    then show ?thesis unfolding unfold
      by (intro exI [of _ e]) (simp add: this_def setupListeners_def console_warn_def)
  qed
qed

lemma releaseSession_active:
  assumes "isActiveSession a" and "OpRemoveItem \<notin> throwing ls"
  shows "releaseSession a ls =
           Returned (clearInterval_if_set a,
                     ls\<lparr>items := AList.delete (storageKey a) (items ls)\<rparr>)"
  using assms by (simp add: releaseSession_def ls_removeItem_def Let_def)

lemma releaseSession_inactive:
  assumes "\<not> isActiveSession a"
  shows "releaseSession a ls = Returned (clearInterval_if_set a, ls)"
  using assms by (simp add: releaseSession_def Let_def)

lemma key_not_in_delete: "k \<notin> fst ` set (AList.delete k al)"
  by (auto simp: AList.delete_eq)

section \<open>The claims\<close>

subsection \<open>C1: the later instance takes the session over\<close>

text \<open>
  C1. Instance A is constructed, then instance B on the same storage, then the periodic
  check of A runs once: A's conflict callback is to be invoked exactly once, A is to
  report itself inactive and B active.

  Lemma \<open>takeover_evicts_first\<close> above shows this for every storage that holds at
  most one claim key when A is constructed. It fails on a storage that holds two stale
  claim keys. The sweep of A removes the first and, because the index advances after the
  removal, never looks at the second; A's key is appended behind it. The sweep of B then
  removes that stale key and in the same way steps over A's key. A's periodic check reads
  \<^verbatim>\<open>'active'\<close>, invokes no callback, and A stays active beside B.
\<close>

theorem first_instance_survives_behind_stale_claims:
  "construct_seq [(''3-c'', False, 1), (''4-d'', False, 2)]
      \<lparr>items = [(''semanticAppActiveSession_1-a'', ''active''),
                 (''semanticAppActiveSession_2-b'', ''active'')], throwing = {}\<rparr>
     = Returned
         ([\<lparr>sessionId = ''3-c'', storageKey = ''semanticAppActiveSession_3-c'',
             intervalId = Some 1, isActiveSession = True, onConflict_throws = False,
             conflict_calls = 0, warnings = [], interval_running = True\<rparr>,
           \<lparr>sessionId = ''4-d'', storageKey = ''semanticAppActiveSession_4-d'',
             intervalId = Some 2, isActiveSession = True, onConflict_throws = False,
             conflict_calls = 0, warnings = [], interval_running = True\<rparr>],
          \<lparr>items = [(''semanticAppActiveSession_3-c'', ''active''),
                     (''semanticAppActiveSession_4-d'', ''active'')], throwing = {}\<rparr>) \<and>
   periodicCheck
       \<lparr>sessionId = ''3-c'', storageKey = ''semanticAppActiveSession_3-c'',
         intervalId = Some 1, isActiveSession = True, onConflict_throws = False,
         conflict_calls = 0, warnings = [], interval_running = True\<rparr>
       \<lparr>items = [(''semanticAppActiveSession_3-c'', ''active''),
                  (''semanticAppActiveSession_4-d'', ''active'')], throwing = {}\<rparr>
     = Returned
         (\<lparr>sessionId = ''3-c'', storageKey = ''semanticAppActiveSession_3-c'',
            intervalId = Some 1, isActiveSession = True, onConflict_throws = False,
            conflict_calls = 0, warnings = [], interval_running = True\<rparr>,
          \<lparr>items = [(''semanticAppActiveSession_3-c'', ''active''),
                     (''semanticAppActiveSession_4-d'', ''active'')], throwing = {}\<rparr>)"
  by (simp add: new_ActiveSessionManager_def claimSession_def claimSession_try_def
        claim_loop.simps ls_length_def ls_key_def ls_removeItem_def ls_setItem_def
        ls_getItem_def is_claim_key_def startsWith_def ACTIVE_SESSION_KEY_PREFIX_def
        setupListeners_def periodicCheck_def periodicCheck_try_def)

subsection \<open>C2: the sweep at construction\<close>

text \<open>
  C2. Whatever the storage holds, constructing an instance is to remove every key that
  starts with the session prefix before writing the instance's own key, so that this
  key is the only claim key afterwards.

  The loop \<^verbatim>\<open>for (i = 0; i < localStorage.length; i++)\<close> removes \<^verbatim>\<open>key(i)\<close> and
  then increments \<open>i\<close>, so the key that moved into position \<open>i\<close> is never tested.
  On a storage holding exactly two claim keys the loop ends after one removal (index 1,
  length 1), in whichever order the two are enumerated: one stale key stays beside the
  new one.
\<close>

theorem sweep_skips_the_key_after_a_removed_one:
  "new_ActiveSessionManager ''3-c'' False 1
      \<lparr>items = [(''semanticAppActiveSession_1-a'', ''active''),
                 (''semanticAppActiveSession_2-b'', ''active'')], throwing = {}\<rparr>
     = Returned
         (\<lparr>sessionId = ''3-c'', storageKey = ''semanticAppActiveSession_3-c'',
            intervalId = Some 1, isActiveSession = True, onConflict_throws = False,
            conflict_calls = 0, warnings = [], interval_running = True\<rparr>,
          \<lparr>items = [(''semanticAppActiveSession_2-b'', ''active''),
                     (''semanticAppActiveSession_3-c'', ''active'')], throwing = {}\<rparr>) \<and>
   claim_keys \<lparr>items = [(''semanticAppActiveSession_2-b'', ''active''),
                         (''semanticAppActiveSession_3-c'', ''active'')], throwing = {}\<rparr>
     = [''semanticAppActiveSession_2-b'', ''semanticAppActiveSession_3-c''] \<and>
   new_ActiveSessionManager ''3-c'' False 1
      \<lparr>items = [(''semanticAppActiveSession_2-b'', ''active''),
                 (''semanticAppActiveSession_1-a'', ''active'')], throwing = {}\<rparr>
     = Returned
         (\<lparr>sessionId = ''3-c'', storageKey = ''semanticAppActiveSession_3-c'',
            intervalId = Some 1, isActiveSession = True, onConflict_throws = False,
            conflict_calls = 0, warnings = [], interval_running = True\<rparr>,
          \<lparr>items = [(''semanticAppActiveSession_1-a'', ''active''),
                     (''semanticAppActiveSession_3-c'', ''active'')], throwing = {}\<rparr>)"
  by (simp add: new_ActiveSessionManager_def claimSession_def claimSession_try_def
        claim_loop.simps ls_length_def ls_key_def ls_removeItem_def ls_setItem_def
        is_claim_key_def startsWith_def ACTIVE_SESSION_KEY_PREFIX_def
        setupListeners_def claim_keys_def)

subsection \<open>C3: instances constructed one after the other\<close>

text \<open>
  C3. For every \<open>N \<ge> 1\<close>, constructing \<open>N\<close> instances in strict sequence on a working
  storage that holds no claim key leaves exactly one claim key under the prefix, the key
  of the instance constructed last (with the value \<^verbatim>\<open>'active'\<close>). One claim key at most
  is in the storage before each sweep, and such a key is never skipped.
\<close>

theorem sequential_constructions_leave_last_claim:
  assumes "throwing ls = {}" and "claim_keys ls = []" and "args \<noteq> []"
  shows "\<exists>as ls'. construct_seq args ls = Returned (as, ls') \<and>
           map sessionId as = map fst args \<and>
           storageKey (last as) = ACTIVE_SESSION_KEY_PREFIX @ fst (last args) \<and>
           claim_keys ls' = [storageKey (last as)] \<and>
           map_of (items ls') (storageKey (last as)) = Some ''active''"
  using construct_seq_at_most_one [OF assms(1) _ assms(3)] assms(2) by simp

theorem sequential_constructions_leave_last_claim_witness:
  "throwing \<lparr>items = [(''theme'', ''dark'')], throwing = {}\<rparr> = {} \<and>
   claim_keys \<lparr>items = [(''theme'', ''dark'')], throwing = {}\<rparr> = [] \<and>
   [(''1-a'', False, 1::nat), (''2-b'', True, 2), (''3-c'', False, 3)] \<noteq> [] \<and>
   (\<exists>as ls'. construct_seq [(''1-a'', False, 1), (''2-b'', True, 2), (''3-c'', False, 3)]
                \<lparr>items = [(''theme'', ''dark'')], throwing = {}\<rparr> = Returned (as, ls') \<and>
        map sessionId as = [''1-a'', ''2-b'', ''3-c''] \<and>
        storageKey (last as) = ''semanticAppActiveSession_3-c'' \<and>
        claim_keys ls' = [''semanticAppActiveSession_3-c''])"
proof -
  let ?ls = "\<lparr>items = [(''theme'', ''dark'')], throwing = {}\<rparr>"
  let ?args = "[(''1-a'', False, 1::nat), (''2-b'', True, 2), (''3-c'', False, 3)]"
  have h1: "throwing ?ls = {}" by simp
  have h2: "claim_keys ?ls = []"
    by (simp add: claim_keys_def is_claim_key_def startsWith_def ACTIVE_SESSION_KEY_PREFIX_def)
  have h3: "?args \<noteq> []" by simp
  from sequential_constructions_leave_last_claim [OF h1 h2 h3] obtain as ls' where
    r: "construct_seq ?args ?ls = Returned (as, ls')" "map sessionId as = map fst ?args"
      "storageKey (last as) = ACTIVE_SESSION_KEY_PREFIX @ fst (last ?args)"
      "claim_keys ls' = [storageKey (last as)]" by blast
  have k: "storageKey (last as) = ''semanticAppActiveSession_3-c''"
    using r(3) by (simp add: ACTIVE_SESSION_KEY_PREFIX_def)
  have m: "map sessionId as = [''1-a'', ''2-b'', ''3-c'']" using r(2) by simp
  have c: "claim_keys ls' = [''semanticAppActiveSession_3-c'']" using r(4) k by simp
  show ?thesis
    by (intro conjI exI [of _ as] exI [of _ ls']) (fact h1 h2 h3 r(1) k m c)+
qed

subsection \<open>C4: the conflict callback fires at most once\<close>

text \<open>
  C4. Over the lifetime of an instance, from its construction on any storage through any
  sequence of timer ticks, calls of the public methods, unloads and changes made to the
  storage by others, nothing throws and the conflict callback has been invoked never
  while the instance is active and exactly once when it is evicted. On an evicted
  instance any number of further periodic checks, on any storage, returns without
  invoking the callback and leaves instance and storage as they are.
\<close>

theorem conflict_callback_at_most_once:
  "\<exists>a0 ls1 a ls.
      new_ActiveSessionManager sid cb h ls0 = Returned (a0, ls1) \<and>
      run evs a0 ls1 = Returned (a, ls) \<and>
      conflict_calls a = (if isActiveSession a then 0 else 1) \<and>
      (\<not> isActiveSession a \<longrightarrow> periodicChecks n a ls' = Returned (a, ls'))"
proof -
  from new_ActiveSessionManager_shape [of sid cb h ls0] obtain a0 ls1 where
    new: "new_ActiveSessionManager sid cb h ls0 = Returned (a0, ls1)"
    and a0: "isActiveSession a0" "conflict_calls a0 = 0" by force
  from run_result [of evs a0 ls1] obtain a ls where
    run: "run evs a0 ls1 = Returned (a, ls)"
    and count: "conflict_calls a + of_bool (isActiveSession a)
                  = conflict_calls a0 + of_bool (isActiveSession a0)" by blast
  have "conflict_calls a = (if isActiveSession a then 0 else 1)"
    using count a0 by (cases "isActiveSession a") simp_all
  then show ?thesis using new run periodicChecks_inactive [of a n ls'] by blast
qed

theorem conflict_callback_at_most_once_witness:
  "\<exists>a0 ls1 a ls.
      new_ActiveSessionManager ''1-a'' False 1 \<lparr>items = [], throwing = {}\<rparr> = Returned (a0, ls1) \<and>
      run [Environment \<lparr>items = [], throwing = {}\<rparr>, PeriodicCheck, PeriodicCheck] a0 ls1
        = Returned (a, ls) \<and>
      conflict_calls a = 1 \<and> \<not> isActiveSession a \<and>
      periodicChecks 3 a \<lparr>items = [], throwing = {}\<rparr>
        = Returned (a, \<lparr>items = [], throwing = {}\<rparr>)"
proof -
  let ?E = "\<lparr>items = [], throwing = {}\<rparr>"
  let ?evs = "[Environment ?E, PeriodicCheck, PeriodicCheck]"
  from conflict_callback_at_most_once [of "''1-a''" False 1 ?E ?evs 3 ?E]
  obtain a0 ls1 a ls where
    new: "new_ActiveSessionManager ''1-a'' False 1 ?E = Returned (a0, ls1)"
    and run: "run ?evs a0 ls1 = Returned (a, ls)"
    and count: "conflict_calls a = (if isActiveSession a then 0 else 1)"
    and after: "\<not> isActiveSession a \<longrightarrow> periodicChecks 3 a ?E = Returned (a, ?E)"
    by blast
  have "new_ActiveSessionManager ''1-a'' False 1 ?E
      = Returned (\<lparr>sessionId = ''1-a'', storageKey = ''semanticAppActiveSession_1-a'',
            intervalId = Some 1, isActiveSession = True, onConflict_throws = False,
            conflict_calls = 0, warnings = [], interval_running = True\<rparr>,
          \<lparr>items = [(''semanticAppActiveSession_1-a'', ''active'')], throwing = {}\<rparr>)"
    by (simp add: new_ActiveSessionManager_def claimSession_def claimSession_try_def
        claim_loop.simps ls_length_def ls_setItem_def ACTIVE_SESSION_KEY_PREFIX_def
        setupListeners_def)
  with new have a0: "a0 = \<lparr>sessionId = ''1-a'', storageKey = ''semanticAppActiveSession_1-a'',
            intervalId = Some 1, isActiveSession = True, onConflict_throws = False,
            conflict_calls = 0, warnings = [], interval_running = True\<rparr>" by simp
  have "\<not> isActiveSession (fst (state_of (run ?evs a0 ls1)))"
    unfolding a0
    by (simp add: periodicCheck_def periodicCheck_try_def ls_getItem_def
        clearInterval_if_set_def)
  then have "\<not> isActiveSession a" using run by simp
  then show ?thesis using new run count after by auto
qed

subsection \<open>C5: storage that is not available\<close>

text \<open>
  C5. When the storage throws on every read and write, the construction and every run of
  the periodic check return to their caller, the instance keeps reporting itself active,
  and each failed operation leaves one warning on the console: one from the constructor
  and one per check. The conflict callback is not invoked. The theorem needs only
  \<^verbatim>\<open>setItem\<close> and \<^verbatim>\<open>getItem\<close> to throw; when everything throws, the first failure
  is the read of \<^verbatim>\<open>localStorage.length\<close> and the storage is left as it was.
\<close>

theorem storage_failures_are_swallowed:
  assumes "OpSetItem \<in> throwing ls" and "OpGetItem \<in> throwing ls"
  shows "\<exists>a ls' e a'.
           new_ActiveSessionManager sid cb h ls = Returned (a, ls') \<and>
           isCurrentActiveSession a \<and>
           warnings a = [(''Could not access localStorage for session management:'', e)] \<and>
           periodicChecks n a ls' = Returned (a', ls') \<and>
           isCurrentActiveSession a' \<and> conflict_calls a' = 0 \<and>
           warnings a' = warnings a @
             replicate n (''Error during periodic session check:'', StorageError OpGetItem)"
proof -
  from new_ActiveSessionManager_write_fails [OF assms(1), of sid cb h] obtain e where
    new: "new_ActiveSessionManager sid cb h ls =
     Returned (\<lparr>sessionId = sid, storageKey = ACTIVE_SESSION_KEY_PREFIX @ sid,
                intervalId = Some h, isActiveSession = True, onConflict_throws = cb,
                conflict_calls = 0,
                warnings = [(''Could not access localStorage for session management:'', e)],
                interval_running = True\<rparr>,
               state_of (claim_loop 0 ls))" (is "_ = Returned (?a, ?ls')") by blast
  let ?a' = "?a\<lparr>warnings := warnings ?a @
         replicate n (''Error during periodic session check:'', StorageError OpGetItem)\<rparr>"
  have "OpGetItem \<in> throwing ?ls'" using assms(2) by (simp add: claim_loop_throwing)
  then have checks: "periodicChecks n ?a ?ls' = Returned (?a', ?ls')"
    by (intro periodicChecks_throw) simp_all
  show ?thesis
    apply (rule exI [of _ ?a], rule exI [of _ ?ls'], rule exI [of _ e], rule exI [of _ ?a'])
    apply (intro conjI)
          apply (rule new)
         apply (simp add: isCurrentActiveSession_def)
        apply simp
       apply (rule checks)
      apply (simp_all add: isCurrentActiveSession_def)
    done
qed

theorem storage_failures_are_swallowed_witness:
  "OpSetItem \<in> throwing \<lparr>items = [(''semanticAppActiveSession_1-a'', ''active'')], throwing = UNIV\<rparr> \<and>
   OpGetItem \<in> throwing \<lparr>items = [(''semanticAppActiveSession_1-a'', ''active'')], throwing = UNIV\<rparr> \<and>
   (\<exists>a a'.
      new_ActiveSessionManager ''2-b'' False 1
          \<lparr>items = [(''semanticAppActiveSession_1-a'', ''active'')], throwing = UNIV\<rparr>
        = Returned (a, \<lparr>items = [(''semanticAppActiveSession_1-a'', ''active'')], throwing = UNIV\<rparr>) \<and>
      isCurrentActiveSession a \<and>
      warnings a = [(''Could not access localStorage for session management:'',
                     StorageError OpLength)] \<and>
      periodicChecks 2 a \<lparr>items = [(''semanticAppActiveSession_1-a'', ''active'')], throwing = UNIV\<rparr>
        = Returned (a', \<lparr>items = [(''semanticAppActiveSession_1-a'', ''active'')], throwing = UNIV\<rparr>) \<and>
      isCurrentActiveSession a' \<and> conflict_calls a' = 0 \<and>
      warnings a' =
        [(''Could not access localStorage for session management:'', StorageError OpLength),
         (''Error during periodic session check:'', StorageError OpGetItem),
         (''Error during periodic session check:'', StorageError OpGetItem)])"
proof -
  let ?ls = "\<lparr>items = [(''semanticAppActiveSession_1-a'', ''active'')], throwing = UNIV\<rparr>"
  have h1: "OpSetItem \<in> throwing ?ls" and h2: "OpGetItem \<in> throwing ?ls" by simp_all
  from storage_failures_are_swallowed [OF h1 h2, of "''2-b''" False 1 2]
  obtain a ls' e a' where
    r: "new_ActiveSessionManager ''2-b'' False 1 ?ls = Returned (a, ls')"
      "isCurrentActiveSession a"
      "warnings a = [(''Could not access localStorage for session management:'', e)]"
      "periodicChecks 2 a ls' = Returned (a', ls')"
      "isCurrentActiveSession a'" "conflict_calls a' = 0"
      "warnings a' = warnings a @
         replicate 2 (''Error during periodic session check:'', StorageError OpGetItem)"
    by blast
  have "new_ActiveSessionManager ''2-b'' False 1 ?ls
      = Returned (\<lparr>sessionId = ''2-b'', storageKey = ''semanticAppActiveSession_2-b'',
            intervalId = Some 1, isActiveSession = True, onConflict_throws = False,
            conflict_calls = 0,
            warnings = [(''Could not access localStorage for session management:'',
                         StorageError OpLength)],
            interval_running = True\<rparr>, ?ls)"
    by (simp add: new_ActiveSessionManager_def claimSession_def claimSession_try_def
        claim_loop.simps ls_length_def ACTIVE_SESSION_KEY_PREFIX_def
        setupListeners_def console_warn_def)
  with r(1) have ls': "ls' = ?ls" and e: "warnings a =
      [(''Could not access localStorage for session management:'', StorageError OpLength)]"
    by auto
  have w: "warnings a' =
        [(''Could not access localStorage for session management:'', StorageError OpLength),
         (''Error during periodic session check:'', StorageError OpGetItem),
         (''Error during periodic session check:'', StorageError OpGetItem)]"
    using r(7) e by (simp add: numeral_2_eq_2)
  show ?thesis
    apply (intro conjI)
      apply (fact h1)
     apply (fact h2)
    apply (rule exI [of _ a], rule exI [of _ a'])
    apply (intro conjI)
          apply (fact r(1) [unfolded ls'] r(2) e r(4) [unfolded ls'] r(5) r(6) w)+
    done
qed

subsection \<open>C6: releasing the session\<close>

text \<open>
  C6. \<^verbatim>\<open>releaseSession()\<close> on an instance that is still active removes the instance's
  claim key from the storage (here: a storage whose \<^verbatim>\<open>removeItem\<close> works) and leaves
  every other key as it was. A second call, on the instance and the storage the first
  call left, returns too and changes neither.
\<close>

theorem releaseSession_removes_own_key_then_noop:
  assumes "isActiveSession a" and "OpRemoveItem \<notin> throwing ls"
  shows "\<exists>a' ls'. releaseSession a ls = Returned (a', ls') \<and>
           storageKey a \<notin> fst ` set (items ls') \<and>
           (\<forall>k. k \<noteq> storageKey a \<longrightarrow> map_of (items ls') k = map_of (items ls) k) \<and>
           releaseSession a' ls' = Returned (a', ls')"
proof -
  let ?a' = "clearInterval_if_set a"
  let ?ls' = "ls\<lparr>items := AList.delete (storageKey a) (items ls)\<rparr>"
  have first: "releaseSession a ls = Returned (?a', ?ls')"
    using assms by (rule releaseSession_active)
  have gone: "storageKey a \<notin> fst ` set (items ?ls')" by (simp add: key_not_in_delete)
  have others: "\<forall>k. k \<noteq> storageKey a \<longrightarrow> map_of (items ?ls') k = map_of (items ls) k"
    by (simp add: map_of_delete)
  have "releaseSession ?a' ?ls' =
      Returned (clearInterval_if_set ?a',
                ?ls'\<lparr>items := AList.delete (storageKey ?a') (items ?ls')\<rparr>)"
    using assms by (intro releaseSession_active) simp_all
  then have second: "releaseSession ?a' ?ls' = Returned (?a', ?ls')"
    by (simp add: delete_idem)
  show ?thesis
    apply (rule exI [of _ ?a'], rule exI [of _ ?ls'])
    apply (intro conjI)
       apply (fact first gone others second)+
    done
qed

theorem releaseSession_removes_own_key_then_noop_witness:
  "isActiveSession
     \<lparr>sessionId = ''1-a'', storageKey = ''semanticAppActiveSession_1-a'',
       intervalId = Some 7, isActiveSession = True, onConflict_throws = False,
       conflict_calls = 0, warnings = [], interval_running = True\<rparr> \<and>
   OpRemoveItem \<notin> throwing \<lparr>items = [(''theme'', ''dark''),
        (''semanticAppActiveSession_1-a'', ''active'')], throwing = {}\<rparr> \<and>
   releaseSession
     \<lparr>sessionId = ''1-a'', storageKey = ''semanticAppActiveSession_1-a'',
       intervalId = Some 7, isActiveSession = True, onConflict_throws = False,
       conflict_calls = 0, warnings = [], interval_running = True\<rparr>
     \<lparr>items = [(''theme'', ''dark''), (''semanticAppActiveSession_1-a'', ''active'')],
       throwing = {}\<rparr>
   = Returned
      (\<lparr>sessionId = ''1-a'', storageKey = ''semanticAppActiveSession_1-a'',
         intervalId = Some 7, isActiveSession = True, onConflict_throws = False,
         conflict_calls = 0, warnings = [], interval_running = False\<rparr>,
       \<lparr>items = [(''theme'', ''dark'')], throwing = {}\<rparr>) \<and>
   releaseSession
     \<lparr>sessionId = ''1-a'', storageKey = ''semanticAppActiveSession_1-a'',
       intervalId = Some 7, isActiveSession = True, onConflict_throws = False,
       conflict_calls = 0, warnings = [], interval_running = False\<rparr>
     \<lparr>items = [(''theme'', ''dark'')], throwing = {}\<rparr>
   = Returned
      (\<lparr>sessionId = ''1-a'', storageKey = ''semanticAppActiveSession_1-a'',
         intervalId = Some 7, isActiveSession = True, onConflict_throws = False,
         conflict_calls = 0, warnings = [], interval_running = False\<rparr>,
       \<lparr>items = [(''theme'', ''dark'')], throwing = {}\<rparr>)"
proof -
  let ?a = "\<lparr>sessionId = ''1-a'', storageKey = ''semanticAppActiveSession_1-a'',
       intervalId = Some 7, isActiveSession = True, onConflict_throws = False,
       conflict_calls = 0, warnings = [], interval_running = True\<rparr>"
  let ?ls = "\<lparr>items = [(''theme'', ''dark''), (''semanticAppActiveSession_1-a'', ''active'')],
       throwing = {}\<rparr>"
  have h1: "isActiveSession ?a" by simp
  have h2: "OpRemoveItem \<notin> throwing ?ls" by simp
  have first: "releaseSession ?a ?ls = Returned
      (\<lparr>sessionId = ''1-a'', storageKey = ''semanticAppActiveSession_1-a'',
         intervalId = Some 7, isActiveSession = True, onConflict_throws = False,
         conflict_calls = 0, warnings = [], interval_running = False\<rparr>,
       \<lparr>items = [(''theme'', ''dark'')], throwing = {}\<rparr>)"
    by (simp add: releaseSession_def clearInterval_if_set_def ls_removeItem_def)
  from releaseSession_removes_own_key_then_noop [OF h1 h2] obtain a' ls' where
    r: "releaseSession ?a ?ls = Returned (a', ls')" "releaseSession a' ls' = Returned (a', ls')"
    by blast
  from r(1) first have "a' = \<lparr>sessionId = ''1-a'', storageKey = ''semanticAppActiveSession_1-a'',
         intervalId = Some 7, isActiveSession = True, onConflict_throws = False,
         conflict_calls = 0, warnings = [], interval_running = False\<rparr>"
    and "ls' = \<lparr>items = [(''theme'', ''dark'')], throwing = {}\<rparr>" by simp_all
  with r(2) first h1 h2 show ?thesis by simp
qed

subsection \<open>C7: releasing after eviction\<close>

text \<open>
  C7. \<^verbatim>\<open>releaseSession()\<close> on an evicted instance returns and leaves the storage exactly
  as it was, whatever it holds: no key is removed, not the key of another instance and
  not even a key under the evicted instance's own name.
\<close>

theorem releaseSession_after_eviction_leaves_storage:
  assumes "\<not> isActiveSession a"
  shows "\<exists>a'. releaseSession a ls = Returned (a', ls) \<and> \<not> isCurrentActiveSession a'"
  using releaseSession_inactive [OF assms, of ls] assms
  by (simp add: isCurrentActiveSession_def)

theorem releaseSession_after_eviction_leaves_storage_witness:
  "\<not> isActiveSession
     \<lparr>sessionId = ''1-a'', storageKey = ''semanticAppActiveSession_1-a'',
       intervalId = Some 7, isActiveSession = False, onConflict_throws = False,
       conflict_calls = 1, warnings = [], interval_running = False\<rparr> \<and>
   (\<exists>a'. releaseSession
      \<lparr>sessionId = ''1-a'', storageKey = ''semanticAppActiveSession_1-a'',
        intervalId = Some 7, isActiveSession = False, onConflict_throws = False,
        conflict_calls = 1, warnings = [], interval_running = False\<rparr>
      \<lparr>items = [(''semanticAppActiveSession_1-a'', ''stale''),
                 (''semanticAppActiveSession_2-b'', ''active'')], throwing = {}\<rparr>
    = Returned (a', \<lparr>items = [(''semanticAppActiveSession_1-a'', ''stale''),
                 (''semanticAppActiveSession_2-b'', ''active'')], throwing = {}\<rparr>) \<and>
    \<not> isCurrentActiveSession a')"
proof -
  let ?a = "\<lparr>sessionId = ''1-a'', storageKey = ''semanticAppActiveSession_1-a'',
       intervalId = Some 7, isActiveSession = False, onConflict_throws = False,
       conflict_calls = 1, warnings = [], interval_running = False\<rparr>"
  have h: "\<not> isActiveSession ?a" by simp
  show ?thesis
    using h releaseSession_after_eviction_leaves_storage [OF h] by blast
qed

subsection \<open>C8: eviction is final\<close>

text \<open>
  C8. Once the active flag of an instance is false, no sequence of periodic checks, calls
  of \<^verbatim>\<open>releaseSession()\<close> and \<^verbatim>\<open>isCurrentActiveSession()\<close>, unloads and changes made
  to the storage by others makes \<^verbatim>\<open>isCurrentActiveSession()\<close> return true again, not
  even when the instance's own key reappears in the storage with the value
  \<^verbatim>\<open>'active'\<close>. The only assignment of \<^verbatim>\<open>true\<close> to the flag is in \<^verbatim>\<open>claimSession\<close>,
  which is private and called by the constructor alone.
\<close>

theorem evicted_is_terminal:
  assumes "\<not> isActiveSession a"
  shows "\<exists>a' ls'. run evs a ls = Returned (a', ls') \<and> \<not> isCurrentActiveSession a'"
proof -
  from run_result [of evs a ls] obtain a' ls' where
    "run evs a ls = Returned (a', ls')" "isActiveSession a' \<longrightarrow> isActiveSession a" by blast
  then show ?thesis using assms by (auto simp: isCurrentActiveSession_def)
qed

theorem evicted_is_terminal_witness:
  "\<not> isActiveSession
     \<lparr>sessionId = ''1-a'', storageKey = ''semanticAppActiveSession_1-a'',
       intervalId = Some 7, isActiveSession = False, onConflict_throws = False,
       conflict_calls = 1, warnings = [], interval_running = False\<rparr> \<and>
   (\<exists>a' ls'.
      run [Environment \<lparr>items = [(''semanticAppActiveSession_1-a'', ''active'')], throwing = {}\<rparr>,
           PeriodicCheck, IsCurrentActiveSession, ReleaseSession, BeforeUnload, PeriodicCheck]
        \<lparr>sessionId = ''1-a'', storageKey = ''semanticAppActiveSession_1-a'',
          intervalId = Some 7, isActiveSession = False, onConflict_throws = False,
          conflict_calls = 1, warnings = [], interval_running = False\<rparr>
        \<lparr>items = [], throwing = {}\<rparr>
      = Returned (a', ls') \<and> \<not> isCurrentActiveSession a')"
proof -
  let ?a = "\<lparr>sessionId = ''1-a'', storageKey = ''semanticAppActiveSession_1-a'',
       intervalId = Some 7, isActiveSession = False, onConflict_throws = False,
       conflict_calls = 1, warnings = [], interval_running = False\<rparr>"
  have h: "\<not> isActiveSession ?a" by simp
  show ?thesis
    using h evicted_is_terminal [OF h] by blast
qed

subsection \<open>C9: a released instance still reports itself active\<close>

text \<open>
  C9. \<^verbatim>\<open>releaseSession()\<close> on an active instance returns, and afterwards
  \<^verbatim>\<open>isCurrentActiveSession()\<close> still returns true: the call stops the timer (when the
  handle is a truthy number) and removes the claim key (when \<^verbatim>\<open>removeItem\<close> works), but
  it never assigns the active flag.
\<close>

theorem releaseSession_keeps_active_flag:
  assumes "isActiveSession a"
  shows "\<exists>a' ls'. releaseSession a ls = Returned (a', ls') \<and>
           isCurrentActiveSession a' \<and>
           (intervalId a = Some h \<and> h \<noteq> 0 \<longrightarrow> \<not> interval_running a') \<and>
           (OpRemoveItem \<notin> throwing ls \<longrightarrow> storageKey a \<notin> fst ` set (items ls'))"
proof -
  from releaseSession_result [of a ls] obtain ls' where
    r: "releaseSession a ls = Returned (clearInterval_if_set a, ls')" by blast
  have flag: "isCurrentActiveSession (clearInterval_if_set a)"
    using assms by (simp add: isCurrentActiveSession_def)
  have timer: "intervalId a = Some h \<and> h \<noteq> 0 \<longrightarrow> \<not> interval_running (clearInterval_if_set a)"
    by (simp add: clearInterval_if_set_def)
  have key: "OpRemoveItem \<notin> throwing ls \<longrightarrow> storageKey a \<notin> fst ` set (items ls')"
  proof
    assume "OpRemoveItem \<notin> throwing ls"
    from releaseSession_active [OF assms this] r
    have "ls' = ls\<lparr>items := AList.delete (storageKey a) (items ls)\<rparr>" by simp
    then show "storageKey a \<notin> fst ` set (items ls')" by (simp add: key_not_in_delete)
  qed
  show ?thesis
    apply (rule exI [of _ "clearInterval_if_set a"], rule exI [of _ ls'])
    apply (intro conjI)
       apply (fact r flag timer key)+
    done
qed

theorem releaseSession_keeps_active_flag_witness:
  "isActiveSession
     \<lparr>sessionId = ''1-a'', storageKey = ''semanticAppActiveSession_1-a'',
       intervalId = Some 7, isActiveSession = True, onConflict_throws = False,
       conflict_calls = 0, warnings = [], interval_running = True\<rparr> \<and>
   (\<exists>a' ls'.
      releaseSession
        \<lparr>sessionId = ''1-a'', storageKey = ''semanticAppActiveSession_1-a'',
          intervalId = Some 7, isActiveSession = True, onConflict_throws = False,
          conflict_calls = 0, warnings = [], interval_running = True\<rparr>
        \<lparr>items = [(''semanticAppActiveSession_1-a'', ''active'')], throwing = {}\<rparr>
      = Returned (a', ls') \<and>
      isCurrentActiveSession a' \<and> \<not> interval_running a' \<and>
      ''semanticAppActiveSession_1-a'' \<notin> fst ` set (items ls'))"
proof -
  let ?a = "\<lparr>sessionId = ''1-a'', storageKey = ''semanticAppActiveSession_1-a'',
       intervalId = Some 7, isActiveSession = True, onConflict_throws = False,
       conflict_calls = 0, warnings = [], interval_running = True\<rparr>"
  let ?ls = "\<lparr>items = [(''semanticAppActiveSession_1-a'', ''active'')], throwing = {}\<rparr>"
  have h: "isActiveSession ?a" by simp
  from releaseSession_keeps_active_flag [OF h, of ?ls 7] obtain a' ls' where
    r: "releaseSession ?a ?ls = Returned (a', ls')" "isCurrentActiveSession a'"
      "intervalId ?a = Some 7 \<and> (7::nat) \<noteq> 0 \<longrightarrow> \<not> interval_running a'"
      "OpRemoveItem \<notin> throwing ?ls \<longrightarrow> storageKey ?a \<notin> fst ` set (items ls')"
    by blast
  have t: "\<not> interval_running a'" using r(3) by simp
  have k: "''semanticAppActiveSession_1-a'' \<notin> fst ` set (items ls')" using r(4) by simp
  show ?thesis
    apply (intro conjI)
     apply (fact h)
    apply (rule exI [of _ a'], rule exI [of _ ls'])
    apply (intro conjI)
       apply (fact r(1) r(2) t k)+
    done
qed

subsection \<open>C10: eviction without a competitor\<close>

text \<open>
  C10. The periodic check evicts an active instance whenever the value it reads at its own
  key is not exactly \<^verbatim>\<open>'active'\<close> (second conjunct, for every instance \<open>b\<close> and storage
  \<open>ls\<close>). In particular (first conjunct): when \<^verbatim>\<open>setItem\<close> throws during the
  construction of an instance whose key is new to the storage, the constructor returns an
  active instance whose key is absent; as soon as reads work again (the failing
  operations are then \<open>T\<close>), the first periodic check invokes the conflict callback and
  the instance is evicted, although no other instance was ever constructed.
\<close>

theorem failed_claim_write_evicts_at_first_check:
  assumes "OpSetItem \<in> throwing ls0"
    and "ACTIVE_SESSION_KEY_PREFIX @ sid \<notin> fst ` set (items ls0)"
    and "OpGetItem \<notin> T"
  shows "(\<exists>a ls1 a'.
           new_ActiveSessionManager sid cb h ls0 = Returned (a, ls1) \<and>
           isCurrentActiveSession a \<and> conflict_calls a = 0 \<and>
           map_of (items ls1) (storageKey a) = None \<and>
           periodicCheck a (ls1\<lparr>throwing := T\<rparr>) = Returned (a', ls1\<lparr>throwing := T\<rparr>) \<and>
           \<not> isCurrentActiveSession a' \<and> conflict_calls a' = 1) \<and>
         (isActiveSession b \<and> OpGetItem \<notin> throwing ls \<and>
          map_of (items ls) (storageKey b) \<noteq> Some ''active'' \<longrightarrow>
          (\<exists>b'. periodicCheck b ls = Returned (b', ls) \<and>
             \<not> isCurrentActiveSession b' \<and> conflict_calls b' = conflict_calls b + 1))"
proof (rule conjI)
  from new_ActiveSessionManager_write_fails [OF assms(1), of sid cb h] obtain e where
    new: "new_ActiveSessionManager sid cb h ls0 =
     Returned (\<lparr>sessionId = sid, storageKey = ACTIVE_SESSION_KEY_PREFIX @ sid,
                intervalId = Some h, isActiveSession = True, onConflict_throws = cb,
                conflict_calls = 0,
                warnings = [(''Could not access localStorage for session management:'', e)],
                interval_running = True\<rparr>,
               state_of (claim_loop 0 ls0))" (is "_ = Returned (?a, ?ls1)") by blast
  have "ACTIVE_SESSION_KEY_PREFIX @ sid \<notin> fst ` set (items ?ls1)"
    using assms(2) claim_loop_items_subset [of 0 ls0] by auto
  then have absent: "map_of (items ?ls1) (storageKey ?a) = None"
    by (simp add: map_of_eq_None_iff)
  have "\<exists>a'. periodicCheck ?a (?ls1\<lparr>throwing := T\<rparr>) = Returned (a', ?ls1\<lparr>throwing := T\<rparr>) \<and>
          \<not> isActiveSession a' \<and> conflict_calls a' = conflict_calls ?a + 1 \<and>
          storageKey a' = storageKey ?a"
    using absent assms(3) by (intro periodicCheck_evict) simp_all
  then obtain a' where
    chk: "periodicCheck ?a (?ls1\<lparr>throwing := T\<rparr>) = Returned (a', ?ls1\<lparr>throwing := T\<rparr>)"
    and ev: "\<not> isCurrentActiveSession a'" and cnt: "conflict_calls a' = 1"
    by (auto simp: isCurrentActiveSession_def)
  have act: "isCurrentActiveSession ?a" by (simp add: isCurrentActiveSession_def)
  have zero: "conflict_calls ?a = 0" by simp
  show "\<exists>a ls1 a'.
           new_ActiveSessionManager sid cb h ls0 = Returned (a, ls1) \<and>
           isCurrentActiveSession a \<and> conflict_calls a = 0 \<and>
           map_of (items ls1) (storageKey a) = None \<and>
           periodicCheck a (ls1\<lparr>throwing := T\<rparr>) = Returned (a', ls1\<lparr>throwing := T\<rparr>) \<and>
           \<not> isCurrentActiveSession a' \<and> conflict_calls a' = 1"
    apply (rule exI [of _ ?a], rule exI [of _ ?ls1], rule exI [of _ a'])
    apply (intro conjI)
          apply (fact new act zero absent chk ev cnt)+
    done
next
  show "isActiveSession b \<and> OpGetItem \<notin> throwing ls \<and>
         map_of (items ls) (storageKey b) \<noteq> Some ''active'' \<longrightarrow>
         (\<exists>b'. periodicCheck b ls = Returned (b', ls) \<and>
            \<not> isCurrentActiveSession b' \<and> conflict_calls b' = conflict_calls b + 1)"
    using periodicCheck_evict [of b ls] by (auto simp: isCurrentActiveSession_def)
qed

theorem failed_claim_write_evicts_at_first_check_witness:
  "OpSetItem \<in> throwing \<lparr>items = [(''theme'', ''dark'')], throwing = {OpSetItem}\<rparr> \<and>
   ACTIVE_SESSION_KEY_PREFIX @ ''1-a''
     \<notin> fst ` set (items \<lparr>items = [(''theme'', ''dark'')], throwing = {OpSetItem}\<rparr>) \<and>
   OpGetItem \<notin> ({} :: storage_op set) \<and>
   (\<exists>a a'.
      new_ActiveSessionManager ''1-a'' False 1
          \<lparr>items = [(''theme'', ''dark'')], throwing = {OpSetItem}\<rparr>
        = Returned (a, \<lparr>items = [(''theme'', ''dark'')], throwing = {OpSetItem}\<rparr>) \<and>
      isCurrentActiveSession a \<and> conflict_calls a = 0 \<and>
      periodicCheck a \<lparr>items = [(''theme'', ''dark'')], throwing = {}\<rparr>
        = Returned (a', \<lparr>items = [(''theme'', ''dark'')], throwing = {}\<rparr>) \<and>
      \<not> isCurrentActiveSession a' \<and> conflict_calls a' = 1) \<and>
   isActiveSession
     \<lparr>sessionId = ''2-b'', storageKey = ''semanticAppActiveSession_2-b'',
       intervalId = Some 7, isActiveSession = True, onConflict_throws = True,
       conflict_calls = 0, warnings = [], interval_running = True\<rparr> \<and>
   map_of (items \<lparr>items = [(''semanticAppActiveSession_2-b'', ''Active'')], throwing = {}\<rparr>)
       ''semanticAppActiveSession_2-b'' \<noteq> Some ''active'' \<and>
   (\<exists>b'. periodicCheck
       \<lparr>sessionId = ''2-b'', storageKey = ''semanticAppActiveSession_2-b'',
         intervalId = Some 7, isActiveSession = True, onConflict_throws = True,
         conflict_calls = 0, warnings = [], interval_running = True\<rparr>
       \<lparr>items = [(''semanticAppActiveSession_2-b'', ''Active'')], throwing = {}\<rparr>
     = Returned (b', \<lparr>items = [(''semanticAppActiveSession_2-b'', ''Active'')], throwing = {}\<rparr>) \<and>
     \<not> isCurrentActiveSession b' \<and> conflict_calls b' = 1)"
proof -
  let ?init = "\<lparr>items = [(''theme'', ''dark'')], throwing = {OpSetItem}\<rparr>"
  let ?b = "\<lparr>sessionId = ''2-b'', storageKey = ''semanticAppActiveSession_2-b'',
       intervalId = Some 7, isActiveSession = True, onConflict_throws = True,
       conflict_calls = 0, warnings = [], interval_running = True\<rparr>"
  let ?other = "\<lparr>items = [(''semanticAppActiveSession_2-b'', ''Active'')], throwing = {}\<rparr>"
  have h1: "OpSetItem \<in> throwing ?init" by simp
  have h2: "ACTIVE_SESSION_KEY_PREFIX @ ''1-a'' \<notin> fst ` set (items ?init)"
    by (simp add: ACTIVE_SESSION_KEY_PREFIX_def)
  have h3: "OpGetItem \<notin> ({} :: storage_op set)" by simp
  have hb: "isActiveSession ?b \<and> OpGetItem \<notin> throwing ?other \<and>
      map_of (items ?other) (storageKey ?b) \<noteq> Some ''active''" by simp
  note inst = failed_claim_write_evicts_at_first_check [OF h1 h2 h3, of False 1 ?b ?other]
  from inst obtain a ls1 a' where
    r: "new_ActiveSessionManager ''1-a'' False 1 ?init = Returned (a, ls1)"
      "isCurrentActiveSession a" "conflict_calls a = 0"
      "periodicCheck a (ls1\<lparr>throwing := {}\<rparr>) = Returned (a', ls1\<lparr>throwing := {}\<rparr>)"
      "\<not> isCurrentActiveSession a'" "conflict_calls a' = 1"
    by blast
  from inst hb obtain b' where
    rb: "periodicCheck ?b ?other = Returned (b', ?other)" "\<not> isCurrentActiveSession b'"
      "conflict_calls b' = conflict_calls ?b + 1" by blast
  have "state_of (new_ActiveSessionManager ''1-a'' False 1 ?init)
      = (\<lparr>sessionId = ''1-a'', storageKey = ''semanticAppActiveSession_1-a'',
            intervalId = Some 1, isActiveSession = True, onConflict_throws = False,
            conflict_calls = 0,
            warnings = [(''Could not access localStorage for session management:'',
                         StorageError OpSetItem)],
            interval_running = True\<rparr>, ?init)"
    by (simp add: new_ActiveSessionManager_def claimSession_def claimSession_try_def
        claim_loop.simps ls_length_def ls_key_def ls_setItem_def is_claim_key_def
        startsWith_def ACTIVE_SESSION_KEY_PREFIX_def setupListeners_def console_warn_def)
  with r(1) have ls1: "ls1 = ?init" by simp
  have n: "new_ActiveSessionManager ''1-a'' False 1 ?init = Returned (a, ?init)"
    using r(1) ls1 by simp
  have c: "periodicCheck a \<lparr>items = [(''theme'', ''dark'')], throwing = {}\<rparr>
        = Returned (a', \<lparr>items = [(''theme'', ''dark'')], throwing = {}\<rparr>)"
    using r(4) ls1 by simp
  have cb: "conflict_calls b' = 1" using rb(3) by simp
  have m: "map_of (items ?other) ''semanticAppActiveSession_2-b'' \<noteq> Some ''active''" by simp
  have ab: "isActiveSession ?b" by simp
  show ?thesis
    apply (intro conjI)
         apply (fact h1)
        apply (fact h2)
       apply (fact h3)
      apply (rule exI [of _ a], rule exI [of _ a'])
      apply (intro conjI)
           apply (fact n r(2) r(3) c r(5) r(6))+
     apply (fact ab)
    apply (fact m)
    apply (rule exI [of _ b'])
    apply (intro conjI)
      apply (fact rb(1) rb(2) cb)+
    done
qed

end
